theory Spec2Isabelle
  imports Complex_Main "HOL-Library.Log_Nat"
begin

section \<open>The scene as the worker sees it\<close>

text \<open>
  The worker (\<^verbatim>\<open>blender_worker.py\<close>) drives Blender through \<^verbatim>\<open>bpy\<close>. Of a scene object the
  code reads its type, the number of polygons of its mesh, the first corner of its bounding
  box, its dimensions, whether its mesh has UV layers, and it writes the x component of its
  location. A float is modelled as the real number it denotes; the worker only copies
  Blender's floats into the observation. The bounding box is Blender's fixed
  \<^verbatim>\<open>float[8][3]\<close> array, of which only corner 0 is ever read.
\<close>

type_synonym vec3 = "real \<times> real \<times> real"

record obj =
  otype :: string
  polygons :: nat
  bound_box0 :: vec3
  dimensions :: vec3
  location_x :: real
  uv_layers :: nat

text \<open>
  \<^verbatim>\<open>bpy.data.objects\<close> in enumeration order, and the active object of the view layer. A Python
  reference to an object is its position in \<open>objects\<close>.
\<close>

record scene =
  objects :: "obj list"
  active :: "nat option"

definition vec_x :: "vec3 \<Rightarrow> real" where
  "vec_x v = fst v"

definition vec_y :: "vec3 \<Rightarrow> real" where
  "vec_y v = fst (snd v)"

definition vec_z :: "vec3 \<Rightarrow> real" where
  "vec_z v = snd (snd v)"

section \<open>Observation and reward\<close>

record observation =
  n_objs :: int
  n_tris :: int
  bbox0 :: "real list"
  dims :: "real list"

text \<open>\<^verbatim>\<open>while len(dims) < 15: dims.append(0.0)\<close>\<close>

function pad_dims :: "real list \<Rightarrow> real list" where
  "pad_dims ds = (if length ds < 15 then pad_dims (ds @ [0]) else ds)"
  by pat_completeness auto
termination
  by (relation "measure (\<lambda>ds. 15 - length ds)") auto

declare pad_dims.simps [simp del]

text \<open>\<^verbatim>\<open>for o in objs[:5]: dims += [o.dimensions.x, o.dimensions.y, o.dimensions.z]\<close>\<close>

definition collect_dims :: "obj list \<Rightarrow> real list" where
  "collect_dims objs =
     foldl (\<lambda>ds ob. ds @ [vec_x (dimensions ob), vec_y (dimensions ob), vec_z (dimensions ob)])
       [] (take 5 objs)"

definition mesh_objects :: "scene \<Rightarrow> obj list" where
  "mesh_objects sc = filter (\<lambda>ob. otype ob = ''MESH'') (objects sc)"

definition get_obs :: "scene \<Rightarrow> observation" where
  "get_obs sc =
     (let objs = mesh_objects sc;
          tris = (if objs \<noteq> [] then sum_list (map (\<lambda>ob. int (polygons ob)) objs) else 0);
          n = int (length objs);
          bb = (case objs of
                  [] \<Rightarrow> [0, 0, 0]
                | ob # _ \<Rightarrow> [vec_x (bound_box0 ob), vec_y (bound_box0 ob), vec_z (bound_box0 ob)]);
          ds = take 15 (pad_dims (collect_dims objs))
      in \<lparr>n_objs = n, n_tris = tris, bbox0 = bb, dims = ds\<rparr>)"

subsection \<open>Python floats\<close>

text \<open>
  Python's \<^verbatim>\<open>float\<close> is IEEE 754 binary64, and \<^verbatim>\<open>_compute_reward\<close> computes with it. A float is
  the real number it denotes, and an operation is the exact operation followed by rounding
  to the nearest number with a significand of 53 bits, a tie going to the even significand.
  The two zeros of binary64 are the one real 0, which Python's \<^verbatim>\<open>==\<close> does not tell apart.
  The exponent range is not modelled: the integers converted here are counts of a scene,
  lengths of sequences in memory and sums of fewer than \<open>2^63\<close> of them, so they, the two
  products and the sum are far inside the range, and no nonzero result is small enough to be
  subnormal.

  \<open>expo x\<close> is the binary exponent of \<open>x > 0\<close>: \<open>2 powi expo x \<le> x < 2 powi (expo x + 1)\<close>.
\<close>

definition expo :: "real \<Rightarrow> int" where
  "expo x = (if 1 \<le> x then bitlen \<lfloor>x\<rfloor> - 1 else - bitlen (\<lceil>1 / x\<rceil> - 1))"

text \<open>The nearest integer, a tie going to the even one.\<close>

definition round_even :: "real \<Rightarrow> int" where
  "round_even q =
     (let f = \<lfloor>q\<rfloor>; d = q - of_int f
      in if d < 1 / 2 then f else if 1 / 2 < d then f + 1 else if even f then f else f + 1)"

text \<open>Rounding to binary64: the significand \<open>x / u\<close> lies between \<open>2^52\<close> and \<open>2^53\<close>.\<close>

definition rnd :: "real \<Rightarrow> real" where
  "rnd x =
     (if x = 0 then 0
      else (let u = 2 powi (expo \<bar>x\<bar> - 52) in of_int (round_even (x / u)) * u))"

text \<open>
  A float literal, the conversion of an \<^verbatim>\<open>int\<close> operand, and \<^verbatim>\<open>*\<close>, \<^verbatim>\<open>+\<close> and \<^verbatim>\<open>-\<close> on floats.
\<close>

definition double_lit :: "real \<Rightarrow> real" where
  "double_lit x = rnd x"

definition double_of_int :: "int \<Rightarrow> real" where
  "double_of_int n = rnd (of_int n)"

definition double_mul :: "real \<Rightarrow> real \<Rightarrow> real" where
  "double_mul a b = rnd (a * b)"

definition double_add :: "real \<Rightarrow> real \<Rightarrow> real" where
  "double_add a b = rnd (a + b)"

definition double_sub :: "real \<Rightarrow> real \<Rightarrow> real" where
  "double_sub a b = rnd (a - b)"

subsection \<open>The reward\<close>

text \<open>
  \<^verbatim>\<open>r = -0.001 * obs["n_tris"]; r += -0.01 * max(0, obs["n_objs"] - 6); return r\<close>
\<close>

definition compute_reward :: "observation \<Rightarrow> real" where
  "compute_reward obs =
     (let r = double_mul (- double_lit 0.001) (double_of_int (n_tris obs));
          r = double_add r
                (double_mul (- double_lit 0.01) (double_of_int (max 0 (n_objs obs - 6))))
      in r)"

section \<open>JSON values and Python's conversions\<close>

text \<open>
  What \<^verbatim>\<open>json.loads\<close> returns and \<^verbatim>\<open>json.dumps\<close> takes. Python's \<^verbatim>\<open>json\<close> reads
  \<^verbatim>\<open>Infinity\<close>, \<^verbatim>\<open>-Infinity\<close> and \<^verbatim>\<open>NaN\<close> as floats, so a float is a real or one of these.
  An object is the list of its members, one per key.
\<close>

datatype pyfloat = Fin real | PosInf | NegInf | NaN

datatype json =
    JNull
  | JBool bool
  | JInt int
  | JFloat pyfloat
  | JString string
  | JArray "json list"
  | JObject "(string \<times> json) list"

datatype exn =
    ValueError string
  | TypeError string
  | AttributeError string
  | OverflowError string
  | ReferenceError string
  | RuntimeError string

text \<open>\<^verbatim>\<open>str(e)\<close>\<close>

fun exn_str :: "exn \<Rightarrow> string" where
  "exn_str (ValueError m) = m"
| "exn_str (TypeError m) = m"
| "exn_str (AttributeError m) = m"
| "exn_str (OverflowError m) = m"
| "exn_str (ReferenceError m) = m"
| "exn_str (RuntimeError m) = m"

text \<open>
  Python's \<^verbatim>\<open>int(s)\<close> on a string, for ASCII input: surrounding whitespace is dropped, then
  an optional sign, then decimal digits, where single underscores may stand between digits.
\<close>

definition is_space :: "char \<Rightarrow> bool" where
  "is_space c = (of_char c \<in> {9, 10, 11, 12, 13, 28, 29, 30, 31, 32 :: nat})"

definition strip :: "string \<Rightarrow> string" where
  "strip s = rev (dropWhile is_space (rev (dropWhile is_space s)))"

definition digit_val :: "char \<Rightarrow> nat option" where
  "digit_val c =
     (let n = (of_char c :: nat) in if 48 \<le> n \<and> n \<le> 57 then Some (n - 48) else None)"

fun parse_digits :: "string \<Rightarrow> nat \<Rightarrow> bool \<Rightarrow> nat option" where
  "parse_digits [] acc after_digit = (if after_digit then Some acc else None)"
| "parse_digits (c # cs) acc after_digit =
     (if c = CHR ''_'' then (if after_digit then parse_digits cs acc False else None)
      else case digit_val c of
             None \<Rightarrow> None
           | Some d \<Rightarrow> parse_digits cs (10 * acc + d) True)"

definition int_of_str :: "string \<Rightarrow> int option" where
  "int_of_str s =
     (case strip s of
        [] \<Rightarrow> None
      | c # cs \<Rightarrow>
          if c = CHR ''-'' then map_option (\<lambda>n. - int n) (parse_digits cs 0 False)
          else if c = CHR ''+'' then map_option int (parse_digits cs 0 False)
          else map_option int (parse_digits (c # cs) 0 False))"

text \<open>
  \<^verbatim>\<open>int(x)\<close> on a decoded JSON value: an int is itself, a bool is 0 or 1, a float is
  truncated toward zero, a string is parsed; \<^verbatim>\<open>None\<close>, a list and a dict are a TypeError.
\<close>

fun py_int :: "json \<Rightarrow> exn + int" where
  "py_int (JInt n) = Inr n"
| "py_int (JBool b) = Inr (if b then 1 else 0)"
| "py_int (JFloat (Fin r)) = Inr (if r < 0 then \<lceil>r\<rceil> else \<lfloor>r\<rfloor>)"
| "py_int (JFloat NaN) = Inl (ValueError ''cannot convert float NaN to integer'')"
| "py_int (JFloat PosInf) = Inl (OverflowError ''cannot convert float infinity to integer'')"
| "py_int (JFloat NegInf) = Inl (OverflowError ''cannot convert float infinity to integer'')"
| "py_int (JString s) =
     (case int_of_str s of
        Some n \<Rightarrow> Inr n
      | None \<Rightarrow> Inl (ValueError ''invalid literal for int() with base 10''))"
| "py_int JNull = Inl (TypeError ''int() argument must be a string or a real number'')"
| "py_int (JArray xs) = Inl (TypeError ''int() argument must be a string or a real number'')"
| "py_int (JObject kv) = Inl (TypeError ''int() argument must be a string or a real number'')"

text \<open>The truth value Python gives a decoded JSON value in \<^verbatim>\<open>if path:\<close>.\<close>

fun truthy :: "json \<Rightarrow> bool" where
  "truthy JNull = False"
| "truthy (JBool b) = b"
| "truthy (JInt n) = (n \<noteq> 0)"
| "truthy (JFloat (Fin r)) = (r \<noteq> 0)"
| "truthy (JFloat x) = True"
| "truthy (JString s) = (s \<noteq> [])"
| "truthy (JArray xs) = (xs \<noteq> [])"
| "truthy (JObject kv) = (kv \<noteq> [])"

section \<open>The Scene Engine\<close>

text \<open>
  The \<^verbatim>\<open>bpy\<close> operators are not code of the worker: they are parameters of the model. An
  operator the worker calls inside \<^verbatim>\<open>try\<close> returns the exception it raised, if any, with the
  scene it left behind. \<^verbatim>\<open>read_factory_settings\<close> is called outside any \<^verbatim>\<open>try\<close> and is taken
  to return. The scene operators cannot reach the file system; import reads it and export
  writes it. \<^verbatim>\<open>json.loads\<close> is a parameter as well.
\<close>

type_synonym files = "string \<Rightarrow> string option"

type_synonym bpy_op = "scene \<Rightarrow> exn option \<times> scene"

record engine =
  read_factory_settings :: "bool \<Rightarrow> scene \<Rightarrow> scene"
  usd_import :: "string \<Rightarrow> files \<Rightarrow> bpy_op"
  usd_export :: "json \<Rightarrow> bool \<Rightarrow> scene \<Rightarrow> files \<Rightarrow> exn option \<times> files"
  modifiers_new :: "nat \<Rightarrow> string \<Rightarrow> string \<Rightarrow> scene \<Rightarrow> (exn + string) \<times> scene"
  set_ratio :: "nat \<Rightarrow> string \<Rightarrow> real \<Rightarrow> bpy_op"
  modifier_apply :: "string \<Rightarrow> bpy_op"
  mode_set :: "string \<Rightarrow> bpy_op"
  select_all :: "string \<Rightarrow> bpy_op"
  remove_doubles :: "real \<Rightarrow> bpy_op"
  smart_project :: "real \<Rightarrow> real \<Rightarrow> bpy_op"
  json_loads :: "string \<Rightarrow> exn + json"

text \<open>\<^verbatim>\<open>os.path.exists\<close>\<close>

definition path_exists :: "files \<Rightarrow> string \<Rightarrow> bool" where
  "path_exists fs p = (fs p \<noteq> None)"

text \<open>One statement after another inside a \<^verbatim>\<open>try\<close> block: the first exception ends the block.\<close>

definition then_op :: "bpy_op \<Rightarrow> bpy_op \<Rightarrow> bpy_op" where
  "then_op f g sc = (case f sc of (None, sc') \<Rightarrow> g sc' | (Some e, sc') \<Rightarrow> (Some e, sc'))"

text \<open>\<^verbatim>\<open>try: ... except Exception: pass\<close>\<close>

definition try_pass :: "bpy_op \<Rightarrow> scene \<Rightarrow> scene" where
  "try_pass f sc = snd (f sc)"

text \<open>\<^verbatim>\<open>bpy.context.view_layer.objects.active = o\<close>\<close>

definition set_active :: "nat \<Rightarrow> scene \<Rightarrow> scene" where
  "set_active i sc = sc\<lparr>active := Some i\<rparr>"

section \<open>SimpleBlenderEnv\<close>

record blender_env =
  usd_path :: "string option"
  step_count :: int
  max_steps :: int

text \<open>\<^verbatim>\<open>SimpleBlenderEnv.__init__\<close>\<close>

definition init_env :: "string option \<Rightarrow> blender_env" where
  "init_env p = \<lparr>usd_path = p, step_count = 0, max_steps = 50\<rparr>"

datatype log =
    Listening
  | ClientConnected
  | InvalidJson string
  | ClientDisconnected
  | Traceback exn
  | UsdImportError exn

text \<open>
  The worker process: the environment object, Blender's scene, the file system, and what
  the process has printed.
\<close>

record worker =
  env :: blender_env
  bpy :: scene
  disk :: files
  stdout :: "log list"

definition reset :: "engine \<Rightarrow> worker \<Rightarrow> observation \<times> worker" where
  "reset E w =
     (let sc0 = read_factory_settings E True (bpy w);
          (sc1, out1) =
            (case usd_path (env w) of
               None \<Rightarrow> (sc0, stdout w)
             | Some p \<Rightarrow>
                 if p \<noteq> [] \<and> path_exists (disk w) p
                 then (case usd_import E p (disk w) sc0 of
                         (None, s) \<Rightarrow> (s, stdout w)
                       | (Some e, s) \<Rightarrow> (s, stdout w @ [UsdImportError e]))
                 else (sc0, stdout w));
          e = (env w)\<lparr>step_count := 0\<rparr>;
          obs = get_obs sc1
      in (obs, w\<lparr>env := e, bpy := sc1, stdout := out1\<rparr>))"

text \<open>\<^verbatim>\<open>objs = [o for o in bpy.data.objects if o.type == 'MESH']\<close>, as references.\<close>

definition mesh_refs :: "scene \<Rightarrow> nat list" where
  "mesh_refs sc = filter (\<lambda>i. otype (objects sc ! i) = ''MESH'') [0..<length (objects sc)]"

text \<open>Action 0: the assignment of the active object stands before the \<^verbatim>\<open>try\<close>.\<close>

fun decimate_all :: "engine \<Rightarrow> nat list \<Rightarrow> scene \<Rightarrow> scene" where
  "decimate_all E [] sc = sc"
| "decimate_all E (i # rest) sc =
     decimate_all E rest
       (try_pass
          (\<lambda>s. case modifiers_new E i ''dec'' ''DECIMATE'' s of
                 (Inl e, s') \<Rightarrow> (Some e, s')
               | (Inr m, s') \<Rightarrow> then_op (set_ratio E i m 0.85) (modifier_apply E m) s')
          (set_active i sc))"

text \<open>Action 1: merge by distance in edit mode.\<close>

fun merge_all :: "engine \<Rightarrow> nat list \<Rightarrow> scene \<Rightarrow> scene" where
  "merge_all E [] sc = sc"
| "merge_all E (i # rest) sc =
     merge_all E rest
       (try_pass
          (then_op (\<lambda>s. (None, set_active i s))
             (then_op (mode_set E ''EDIT'')
                (then_op (select_all E ''SELECT'')
                   (then_op (remove_doubles E 0.0005) (mode_set E ''OBJECT'')))))
          sc)"

text \<open>
  Action 2: smart UV projection for the objects without UV layers. Reading an object that
  is no longer in the scene raises inside the \<^verbatim>\<open>try\<close>.
\<close>

fun unwrap_all :: "engine \<Rightarrow> nat list \<Rightarrow> scene \<Rightarrow> scene" where
  "unwrap_all E [] sc = sc"
| "unwrap_all E (i # rest) sc =
     unwrap_all E rest
       (try_pass
          (then_op (\<lambda>s. (None, set_active i s))
             (\<lambda>s. if i < length (objects s)
                   then (if uv_layers (objects s ! i) = 0
                         then then_op (mode_set E ''EDIT'')
                                (then_op (smart_project E 66.0 0.02) (mode_set E ''OBJECT'')) s
                         else (None, s))
                   else (Some (ReferenceError ''object has been removed''), s)))
          sc)"

text \<open>
  Action 3: lay the objects out along the x axis. The running offset is computed on Python
  floats.
\<close>

fun layout :: "nat list \<Rightarrow> real \<Rightarrow> scene \<Rightarrow> scene" where
  "layout [] x sc = sc"
| "layout (i # rest) x sc =
     (if i < length (objects sc)
      then (let ob = (objects sc ! i)\<lparr>location_x := x\<rparr>;
                dx = vec_x (dimensions ob)
            in layout rest (double_add x (double_mul (if dx > 0 then dx else 1.0) (double_lit 1.3)))
                 (sc\<lparr>objects := (objects sc)[i := ob]\<rparr>))
      else layout rest x sc)"

definition step ::
  "engine \<Rightarrow> int \<Rightarrow> worker \<Rightarrow> (observation \<times> real \<times> bool \<times> (string \<times> json) list) \<times> worker"
where
  "step E action w =
     (let objs = mesh_refs (bpy w);
          sc = (if action = 0 then decimate_all E objs (bpy w)
                else if action = 1 then merge_all E objs (bpy w)
                else if action = 2 then unwrap_all E objs (bpy w)
                else if action = 3 then layout objs 0.0 (bpy w)
                else bpy w);
          e = (env w)\<lparr>step_count := step_count (env w) + 1\<rparr>;
          obs = get_obs sc;
          reward = compute_reward obs;
          done = (step_count e \<ge> max_steps e);
          info = []
      in ((obs, reward, done, info), w\<lparr>env := e, bpy := sc\<rparr>))"

section \<open>The TCP server\<close>

text \<open>\<^verbatim>\<open>json.dumps\<close> of an observation dictionary, as the JSON value it denotes.\<close>

definition obs_json :: "observation \<Rightarrow> json" where
  "obs_json obs =
     JObject [(''n_objs'', JInt (n_objs obs)),
              (''n_tris'', JInt (n_tris obs)),
              (''bbox0'', JArray (map (\<lambda>r. JFloat (Fin r)) (bbox0 obs))),
              (''dims'', JArray (map (\<lambda>r. JFloat (Fin r)) (dims obs)))]"

datatype flow = Continue | Break

text \<open>
  The body of the handler's loop from \<^verbatim>\<open>cmd = data.get("cmd")\<close> on: the worker and the
  replies written to the connection so far go in, and come out with either the exception
  that left the handler or how the loop goes on. \<^verbatim>\<open>data.get\<close> exists on a dict only.
  Writes to the connection are taken to succeed.
\<close>

definition dispatch ::
  "engine \<Rightarrow> json \<Rightarrow> worker \<Rightarrow> json list \<Rightarrow> (exn + flow) \<times> worker \<times> json list"
where
  "dispatch E data w out =
     (case data of
        JObject kv \<Rightarrow>
          (let cmd = map_of kv ''cmd'' in
           if cmd = Some (JString ''reset'') then
             (let (obs, w') = reset E w
              in (Inr Continue, w', out @ [JObject [(''obs'', obs_json obs)]]))
           else if cmd = Some (JString ''step'') then
             (case py_int (case map_of kv ''action'' of None \<Rightarrow> JInt 0 | Some a \<Rightarrow> a) of
                Inl e \<Rightarrow> (Inl e, w, out)
              | Inr action \<Rightarrow>
                  (let ((obs, reward, done, info), w') = step E action w
                   in (Inr Continue, w',
                       out @ [JObject [(''obs'', obs_json obs),
                                       (''reward'', JFloat (Fin reward)),
                                       (''done'', JBool done),
                                       (''info'', JObject info)]])))
           else if cmd = Some (JString ''ping'') then
             (Inr Continue, w, out @ [JObject [(''pong'', JBool True)]])
           else if cmd = Some (JString ''save'') then
             (case map_of kv ''path'' of
                None \<Rightarrow>
                  (Inr Continue, w,
                   out @ [JObject [(''saved'', JBool False), (''error'', JString ''no path'')]])
              | Some path \<Rightarrow>
                  if truthy path then
                    (case usd_export E path True (bpy w) (disk w) of
                       (None, d) \<Rightarrow>
                         (Inr Continue, w\<lparr>disk := d\<rparr>,
                          out @ [JObject [(''saved'', JBool True), (''path'', path)]])
                     | (Some e, d) \<Rightarrow>
                         (Inr Continue, w\<lparr>disk := d\<rparr>,
                          out @ [JObject [(''saved'', JBool False),
                                          (''error'', JString (exn_str e))]]))
                  else
                    (Inr Continue, w,
                     out @ [JObject [(''saved'', JBool False), (''error'', JString ''no path'')]]))
           else if cmd = Some (JString ''close'') then
             (Inr Break, w, out @ [JObject [(''closed'', JBool True)]])
           else
             (Inr Continue, w, out @ [JObject [(''error'', JString ''unknown_cmd'')]]))
      | _ \<Rightarrow> (Inl (AttributeError ''object has no attribute get''), w, out))"

definition log_line :: "log \<Rightarrow> worker \<Rightarrow> worker" where
  "log_line l w = w\<lparr>stdout := stdout w @ [l]\<rparr>"

text \<open>
  \<^verbatim>\<open>handle_client\<close>: the lines the peer sends, each as \<^verbatim>\<open>readline\<close> returns it (its
  newline included), then end of stream, where \<^verbatim>\<open>readline\<close> returns the empty bytes. Bytes
  are read as the text they decode to; a line that does not decode fails in \<open>json_loads\<close>,
  as it fails inside the same \<^verbatim>\<open>try\<close>. The result is the exception that left the handler,
  if any, the worker, and the replies written.
\<close>

fun handle_client ::
  "engine \<Rightarrow> string list \<Rightarrow> worker \<Rightarrow> json list \<Rightarrow> exn option \<times> worker \<times> json list"
where
  "handle_client E [] w out = (None, log_line ClientDisconnected w, out)"
| "handle_client E (line # rest) w out =
     (if line = [] then (None, log_line ClientDisconnected w, out)
      else case json_loads E (strip line) of
             Inl e \<Rightarrow> (None, log_line ClientDisconnected (log_line (InvalidJson line) w), out)
           | Inr data \<Rightarrow>
               (case dispatch E data w out of
                  (Inl e, w', out') \<Rightarrow> (Some e, w', out')
                | (Inr Break, w', out') \<Rightarrow> (None, log_line ClientDisconnected w', out')
                | (Inr Continue, w', out') \<Rightarrow> handle_client E rest w' out'))"

text \<open>What became of one accepted connection: the replies it received, and whether the
  listener closed its socket.\<close>

record connection =
  replies :: "json list"
  closed :: bool

text \<open>
  The accept loop of \<^verbatim>\<open>start\<close>, over the connections that arrive, in order. \<^verbatim>\<open>running\<close> is
  never cleared, so the loop ends only where the model's list of connections does: there
  the listener waits in \<^verbatim>\<open>accept\<close>.
\<close>

fun accept_loop ::
  "engine \<Rightarrow> string list list \<Rightarrow> worker \<Rightarrow> worker \<times> connection list"
where
  "accept_loop E [] w = (w, [])"
| "accept_loop E (c # cs) w =
     (let (r, w1, out) = handle_client E c (log_line ClientConnected w) [];
          w2 = (case r of None \<Rightarrow> w1 | Some e \<Rightarrow> log_line (Traceback e) w1);
          (w3, done) = accept_loop E cs w2
      in (w3, \<lparr>replies = out, closed = True\<rparr> # done))"

definition start :: "engine \<Rightarrow> string list list \<Rightarrow> worker \<Rightarrow> worker \<times> connection list" where
  "start E cs w = accept_loop E cs (log_line Listening w)"

text \<open>
  \<^verbatim>\<open>main\<close>: the environment is built with the asset path of the command line, or none when
  the flag is empty; the scene and the file system are what the process finds.
\<close>

definition main_worker :: "string \<Rightarrow> scene \<Rightarrow> files \<Rightarrow> worker" where
  "main_worker usd sc fs =
     \<lparr>env = init_env (if usd \<noteq> [] then Some usd else None), bpy = sc, disk = fs, stdout = []\<rparr>"

section \<open>Vocabulary of the properties\<close>

text \<open>Consecutive \<open>step\<close> calls, one per action, with nothing in between.\<close>

fun steps :: "engine \<Rightarrow> int list \<Rightarrow> worker \<Rightarrow> worker" where
  "steps E [] w = w"
| "steps E (a # as) w = steps E as (snd (step E a w))"

definition done_flag :: "(observation \<times> real \<times> bool \<times> (string \<times> json) list) \<times> worker \<Rightarrow> bool" where
  "done_flag r = fst (snd (snd (fst r)))"

definition valid_obs :: "observation \<Rightarrow> bool" where
  "valid_obs obs =
     (0 \<le> n_objs obs \<and> 0 \<le> n_tris obs \<and> length (bbox0 obs) = 3 \<and> length (dims obs) = 15)"












text \<open>
  A float of binary64's normal range, or zero; and a number that is zero or lies between two
  powers of two.
\<close>

definition normal64 :: "real \<Rightarrow> bool" where
  "normal64 v = (v = 0 \<or> (2 powi (- 1022) \<le> \<bar>v\<bar> \<and> \<bar>v\<bar> < 2 powi 1024))"

definition in_range :: "int \<Rightarrow> int \<Rightarrow> real \<Rightarrow> bool" where
  "in_range lo hi x = (x = 0 \<or> (2 powi lo \<le> x \<and> x \<le> 2 powi hi))"






text \<open>
  The contract of \<^verbatim>\<open>read_factory_settings(use_empty=True)\<close> that the worker relies on (``reset
  to factory settings to ensure deterministic baseline''): the scene it leaves does not
  depend on the scene it found.
\<close>

definition deterministic_baseline :: "engine \<Rightarrow> bool" where
  "deterministic_baseline E =
     (\<forall>sc sc'. read_factory_settings E True sc = read_factory_settings E True sc')"

section \<open>A concrete engine\<close>

text \<open>
  A small Scene Engine to run the model on: the factory scene is empty, an import adds one
  cube, an export writes the file when the path is a string, applying a modifier removes
  polygons of the active object, the other mesh operators succeed and change nothing, and
  the decoder knows a handful of lines.
\<close>

definition demo_cube :: obj where
  "demo_cube =
     \<lparr>otype = ''MESH'', polygons = 6, bound_box0 = (-1, -1, -1), dimensions = (2, 2, 2),
      location_x = 0, uv_layers = 0\<rparr>"

definition demo_camera :: obj where
  "demo_camera =
     \<lparr>otype = ''CAMERA'', polygons = 0, bound_box0 = (0, 0, 0), dimensions = (0, 0, 0),
      location_x = 0, uv_layers = 0\<rparr>"

definition demo_loads :: "string \<Rightarrow> exn + json" where
  \<open>demo_loads s =
     (if s = ''{"cmd": "ping"}'' then Inr (JObject [(''cmd'', JString ''ping'')])
      else if s = ''{"cmd": "reset"}'' then Inr (JObject [(''cmd'', JString ''reset'')])
      else if s = ''{"cmd": "close"}'' then Inr (JObject [(''cmd'', JString ''close'')])
      else if s = ''{"cmd": "step", "action": 99}''
        then Inr (JObject [(''cmd'', JString ''step''), (''action'', JInt 99)])
      else if s = ''{"cmd": "step", "action": 2.9}''
        then Inr (JObject [(''cmd'', JString ''step''), (''action'', JFloat (Fin 2.9))])
      else if s = ''{"cmd": "step", "action": "abc"}''
        then Inr (JObject [(''cmd'', JString ''step''), (''action'', JString ''abc'')])
      else if s = ''{"cmd": "save", "path": "/tmp/out.usda"}''
        then Inr (JObject [(''cmd'', JString ''save''), (''path'', JString ''/tmp/out.usda'')])
      else if s = ''[1]'' then Inr (JArray [JInt 1])
      else Inl (ValueError ''Expecting value''))\<close>

definition demo_engine :: engine where
  "demo_engine =
     \<lparr>read_factory_settings = (\<lambda>use_empty sc. \<lparr>objects = [], active = None\<rparr>),
      usd_import = (\<lambda>p fs sc. (None, sc\<lparr>objects := objects sc @ [demo_cube]\<rparr>)),
      usd_export = (\<lambda>path anim sc fs.
         case path of
           JString p \<Rightarrow> (None, fs(p \<mapsto> ''#usda 1.0''))
         | _ \<Rightarrow> (Some (TypeError ''filepath expected a string type''), fs)),
      modifiers_new = (\<lambda>i name kind sc. (Inr name, sc)),
      set_ratio = (\<lambda>i m r sc. (None, sc)),
      modifier_apply = (\<lambda>m sc.
         case active sc of
           None \<Rightarrow> (Some (RuntimeError ''no active object''), sc)
         | Some i \<Rightarrow>
             if i < length (objects sc)
             then (None, sc\<lparr>objects := (objects sc)
                     [i := (objects sc ! i)\<lparr>polygons := polygons (objects sc ! i) * 85 div 100\<rparr>]\<rparr>)
             else (Some (RuntimeError ''no active object''), sc)),
      mode_set = (\<lambda>m sc. (None, sc)),
      select_all = (\<lambda>a sc. (None, sc)),
      remove_doubles = (\<lambda>t sc. (None, sc)),
      smart_project = (\<lambda>a m sc. (None, sc)),
      json_loads = demo_loads\<rparr>"

definition demo_worker :: worker where
  "demo_worker = main_worker [] \<lparr>objects = [demo_cube, demo_camera], active = None\<rparr> Map.empty"

text \<open>A worker started with an asset that is on disk.\<close>

definition asset_worker :: worker where
  "asset_worker =
     main_worker ''/abs/scene.usda'' \<lparr>objects = [demo_camera], active = None\<rparr>
       [''/abs/scene.usda'' \<mapsto> ''#usda 1.0'']"

section \<open>Verified properties\<close>

subsection \<open>Observation construction\<close>

lemma pad_dims_eq: "pad_dims ds = ds @ replicate (15 - length ds) 0"
proof (induction ds rule: pad_dims.induct)
  case (1 ds)
  show ?case
  proof (cases "length ds < 15")
    case True
    then have "15 - length ds = Suc (15 - length (ds @ [0::real]))" by simp
    with True 1 show ?thesis
      by (subst pad_dims.simps) (simp add: replicate_app_Cons_same)
  next
    case False
    then show ?thesis by (subst pad_dims.simps) simp
  qed
qed

lemma foldl_append_concat:
  "foldl (\<lambda>ds ob. ds @ f ob) acc xs = acc @ concat (map f xs)"
  by (induction xs arbitrary: acc) simp_all

lemma collect_dims_concat:
  "collect_dims objs =
     concat (map (\<lambda>ob. [vec_x (dimensions ob), vec_y (dimensions ob), vec_z (dimensions ob)])
       (take 5 objs))"
  unfolding collect_dims_def by (simp add: foldl_append_concat)

lemma dims_get_obs:
  "dims (get_obs sc) = take 15 (pad_dims (collect_dims (mesh_objects sc)))"
  by (simp add: get_obs_def Let_def)

lemma length_dims_get_obs: "length (dims (get_obs sc)) = 15"
  by (simp add: dims_get_obs pad_dims_eq)

lemma reset_obs: "fst (reset E w) = get_obs (bpy (snd (reset E w)))"
  by (simp add: reset_def Let_def split: option.splits prod.splits)

lemma step_obs: "fst (fst (step E a w)) = get_obs (bpy (snd (step E a w)))"
  by (simp add: step_def Let_def)

text \<open>
  C3. Whatever the scene holds, the observation has exactly 15 \<open>dims\<close>: the (x, y, z)
  dimensions of the first five mesh objects in enumeration order, padded with zeros and cut
  to 15. \<open>reset\<close> and \<open>step\<close> return the observation of the scene they leave behind, so
  the same holds of what they return.
\<close>

theorem obs_dims_length_15:
  "length (dims (get_obs sc)) = 15
   \<and> dims (get_obs sc)
       = take 15
           (concat (map (\<lambda>ob. [vec_x (dimensions ob), vec_y (dimensions ob), vec_z (dimensions ob)])
              (take 5 (mesh_objects sc)))
            @ replicate
                (15 - length (concat (map (\<lambda>ob. [vec_x (dimensions ob), vec_y (dimensions ob),
                    vec_z (dimensions ob)]) (take 5 (mesh_objects sc))))) 0)
   \<and> fst (reset E w) = get_obs (bpy (snd (reset E w)))
   \<and> length (dims (fst (reset E w))) = 15
   \<and> fst (fst (step E a w)) = get_obs (bpy (snd (step E a w)))
   \<and> length (dims (fst (fst (step E a w)))) = 15"
proof (intro conjI)
  show "length (dims (get_obs sc)) = 15" by (rule length_dims_get_obs)
  show "dims (get_obs sc)
       = take 15
           (concat (map (\<lambda>ob. [vec_x (dimensions ob), vec_y (dimensions ob), vec_z (dimensions ob)])
              (take 5 (mesh_objects sc)))
            @ replicate
                (15 - length (concat (map (\<lambda>ob. [vec_x (dimensions ob), vec_y (dimensions ob),
                    vec_z (dimensions ob)]) (take 5 (mesh_objects sc))))) 0)"
    by (simp only: dims_get_obs pad_dims_eq collect_dims_concat)
  show "fst (reset E w) = get_obs (bpy (snd (reset E w)))" by (rule reset_obs)
  then show "length (dims (fst (reset E w))) = 15" by (simp only: length_dims_get_obs)
  show "fst (fst (step E a w)) = get_obs (bpy (snd (step E a w)))" by (rule step_obs)
  then show "length (dims (fst (fst (step E a w)))) = 15" by (simp only: length_dims_get_obs)
qed

theorem obs_dims_length_15_witness:
  "dims (get_obs \<lparr>objects = [], active = None\<rparr>) = replicate 15 0
   \<and> dims (get_obs \<lparr>objects = [demo_cube, demo_camera, demo_cube, demo_cube, demo_cube,
          demo_cube, demo_cube], active = None\<rparr>)
       = [2, 2, 2, 2, 2, 2, 2, 2, 2, 2, 2, 2, 2, 2, 2]
   \<and> length (dims (fst (fst (step demo_engine 1 demo_worker)))) = 15"
proof -
  note t = obs_dims_length_15 [where E = demo_engine and w = demo_worker and a = 1]
  have 1: "dims (get_obs \<lparr>objects = [], active = None\<rparr>) = replicate 15 0"
    using t [where sc = "\<lparr>objects = [], active = None\<rparr>"]
    by (simp add: mesh_objects_def)
  have 2: "dims (get_obs \<lparr>objects = [demo_cube, demo_camera, demo_cube, demo_cube, demo_cube,
          demo_cube, demo_cube], active = None\<rparr>)
       = [2, 2, 2, 2, 2, 2, 2, 2, 2, 2, 2, 2, 2, 2, 2]"
    using t [where sc = "\<lparr>objects = [demo_cube, demo_camera, demo_cube, demo_cube, demo_cube,
          demo_cube, demo_cube], active = None\<rparr>"]
    by (simp add: mesh_objects_def demo_cube_def demo_camera_def vec_x_def vec_y_def vec_z_def)
  have 3: "length (dims (fst (fst (step demo_engine 1 demo_worker)))) = 15"
    using t [where sc = "\<lparr>objects = [], active = None\<rparr>"] by blast
  from 1 2 3 show ?thesis by blast
qed

subsection \<open>Rounding to binary64\<close>

lemma expo_bounds:
  assumes "0 < x"
  shows "2 powi (expo x) \<le> x" and "x < 2 powi (expo x + 1)"
proof -
  have "2 powi (expo x) \<le> x \<and> x < 2 powi (expo x + 1)"
  proof (cases "1 \<le> x")
    case True
    let ?m = "\<lfloor>x\<rfloor>"
    from True have m: "0 < ?m" by simp
    from bitlen_bounds [OF m] have lo: "2 ^ nat (bitlen ?m - 1) \<le> ?m" and hi: "?m < 2 ^ nat (bitlen ?m)"
      by simp_all
    from m have b: "1 \<le> bitlen ?m" by (simp add: bitlen_alt_def)
    have "real_of_int (2 ^ nat (bitlen ?m - 1)) \<le> real_of_int ?m" using lo by (simp only: of_int_le_iff)
    also have "\<dots> \<le> x" by simp
    finally have 1: "2 powi (bitlen ?m - 1) \<le> x" using b by (simp add: power_int_def)
    from hi have "?m + 1 \<le> 2 ^ nat (bitlen ?m)" by simp
    then have "real_of_int (?m + 1) \<le> real_of_int (2 ^ nat (bitlen ?m))" by (simp only: of_int_le_iff)
    moreover have "x < real_of_int (?m + 1)" by linarith
    ultimately have "x < real_of_int (2 ^ nat (bitlen ?m))" by (rule less_le_trans [rotated])
    then have 2: "x < 2 powi (bitlen ?m)" using b by (simp add: power_int_def)
    from 1 2 True show ?thesis by (simp add: expo_def)
  next
    case False
    let ?y = "1 / x"
    let ?m = "\<lceil>?y\<rceil> - 1"
    from False assms have y: "1 < ?y" by simp
    then have m: "0 < ?m" by linarith
    from bitlen_bounds [OF m] have lo: "2 ^ nat (bitlen ?m - 1) \<le> ?m" and hi: "?m < 2 ^ nat (bitlen ?m)"
      by simp_all
    from m have b: "1 \<le> bitlen ?m" by (simp add: bitlen_alt_def)
    have "real_of_int (2 ^ nat (bitlen ?m - 1)) \<le> real_of_int ?m" using lo by (simp only: of_int_le_iff)
    also have "\<dots> < ?y" by linarith
    finally have "2 ^ nat (bitlen ?m - 1) < 1 / x" by simp
    then have "x * 2 ^ nat (bitlen ?m - 1) < 1" using assms by (simp add: field_simps)
    then have "x < 1 / 2 ^ nat (bitlen ?m - 1)" by (simp add: field_simps)
    also have "\<dots> = 2 powi (- bitlen ?m + 1)" using b
      by (cases "bitlen ?m = 1") (simp_all add: power_int_def field_simps nat_diff_distrib)
    finally have 2: "x < 2 powi (- bitlen ?m + 1)" .
    from hi have "?m + 1 \<le> 2 ^ nat (bitlen ?m)" by simp
    then have "real_of_int (?m + 1) \<le> real_of_int (2 ^ nat (bitlen ?m))" by (simp only: of_int_le_iff)
    moreover have "?y \<le> real_of_int (?m + 1)" by simp
    ultimately have "?y \<le> real_of_int (2 ^ nat (bitlen ?m))" by (rule order_trans [rotated])
    then have "1 / x \<le> 2 ^ nat (bitlen ?m)" by (simp only: of_int_power of_int_numeral)
    then have "1 \<le> x * 2 ^ nat (bitlen ?m)" using assms by (simp add: field_simps)
    then have "1 / 2 ^ nat (bitlen ?m) \<le> x" by (simp add: field_simps)
    moreover have "1 / 2 ^ nat (bitlen ?m) = (2::real) powi (- bitlen ?m)" using b
      by (simp add: power_int_def field_simps)
    ultimately have 1: "2 powi (- bitlen ?m) \<le> x" by simp
    from 1 2 False show ?thesis by (simp add: expo_def)
  qed
  then show "2 powi (expo x) \<le> x" and "x < 2 powi (expo x + 1)" by simp_all
qed


lemma expo_unique:
  assumes "0 < x" and "2 powi e \<le> x" and "x < 2 powi (e + 1)"
  shows "expo x = e"
proof (rule antisym)
  show "expo x \<le> e"
  proof (rule ccontr)
    assume "\<not> expo x \<le> e"
    then have "e + 1 \<le> expo x" by simp
    then have "(2::real) powi (e + 1) \<le> 2 powi (expo x)" by (rule power_int_increasing) simp
    with expo_bounds(1) [OF assms(1)] assms(3) show False by simp
  qed
  show "e \<le> expo x"
  proof (rule ccontr)
    assume "\<not> e \<le> expo x"
    then have "expo x + 1 \<le> e" by simp
    then have "(2::real) powi (expo x + 1) \<le> 2 powi e" by (rule power_int_increasing) simp
    with expo_bounds(2) [OF assms(1)] assms(2) show False by simp
  qed
qed

lemma expo_mono:
  assumes "0 < x" and "x \<le> y"
  shows "expo x \<le> expo y"
proof (rule ccontr)
  assume "\<not> expo x \<le> expo y"
  then have "expo y + 1 \<le> expo x" by simp
  then have "(2::real) powi (expo y + 1) \<le> 2 powi (expo x)" by (rule power_int_increasing) simp
  moreover have "0 < y" using assms by simp
  ultimately show False
    using expo_bounds(1) [OF assms(1)] expo_bounds(2) [of y] assms(2) by simp
qed

lemma round_even_of_int [simp]: "round_even (of_int n) = n"
  by (simp add: round_even_def)

lemma round_even_cases:
  fixes q :: real
  defines "f \<equiv> \<lfloor>q\<rfloor>" and "d \<equiv> q - of_int \<lfloor>q\<rfloor>"
  shows "round_even q = (if d < 1 / 2 then f else if 1 / 2 < d then f + 1 else if even f then f else f + 1)"
    and "0 \<le> d" and "d < 1"
proof -
  show "round_even q = (if d < 1 / 2 then f else if 1 / 2 < d then f + 1 else if even f then f else f + 1)"
    by (simp only: round_even_def Let_def f_def d_def)
  show "0 \<le> d" unfolding d_def by simp
  show "d < 1" unfolding d_def by linarith
qed

lemma round_even_floor: "\<lfloor>q\<rfloor> \<le> round_even q" and round_even_ceil: "round_even q \<le> \<lfloor>q\<rfloor> + 1"
  by (simp_all only: round_even_cases(1) [of q] split: if_splits) simp_all

lemma round_even_mono:
  assumes "q \<le> q'"
  shows "round_even q \<le> round_even q'"
proof (cases "\<lfloor>q\<rfloor> = \<lfloor>q'\<rfloor>")
  case True
  have "q - of_int \<lfloor>q\<rfloor> \<le> q' - of_int \<lfloor>q\<rfloor>" using assms by simp
  then show ?thesis
    unfolding round_even_cases(1) [of q] round_even_cases(1) [of q'] True [symmetric]
    by (simp split: if_splits)
next
  case False
  with floor_mono [OF assms] have "\<lfloor>q\<rfloor> + 1 \<le> \<lfloor>q'\<rfloor>" by simp
  with round_even_ceil [of q] round_even_floor [of q'] show ?thesis by simp
qed

lemma round_even_minus: "round_even (- q) = - round_even q"
proof (cases "q = of_int \<lfloor>q\<rfloor>")
  case True
  then obtain n where q: "q = of_int n" ..
  have "round_even (- q) = round_even (of_int (- n))" unfolding q by simp
  also have "\<dots> = - n" by (rule round_even_of_int)
  finally show ?thesis unfolding q by simp
next
  case False
  define f where "f = \<lfloor>q\<rfloor>"
  define d where "d = q - of_int f"
  have d: "0 < d" "d < 1" using False unfolding d_def f_def by (simp add: less_le, linarith)
  have "of_int (- f - 1) \<le> - q" "- q < of_int (- f - 1) + 1"
    using d unfolding d_def by simp_all
  then have fl: "\<lfloor>- q\<rfloor> = - f - 1" by (rule floor_unique)
  have dm: "- q - of_int (- f - 1) = 1 - d" unfolding d_def by simp
  have 1: "round_even q = (if d < 1 / 2 then f else if 1 / 2 < d then f + 1 else if even f then f else f + 1)"
    using round_even_cases(1) [of q] unfolding d_def f_def .
  have 2: "round_even (- q) =
      (if 1 - d < 1 / 2 then - f - 1 else if 1 / 2 < 1 - d then - f - 1 + 1
       else if even (- f - 1) then - f - 1 else - f - 1 + 1)"
    using round_even_cases(1) [of "- q"] unfolding fl dm .
  have c: "d < 1 / 2 \<or> 1 / 2 < d \<or> d = 1 / 2" by linarith
  have e: "even (- f - 1) \<longleftrightarrow> odd f" by simp
  from c show ?thesis
  proof (elim disjE)
    assume "d < 1 / 2"
    then show ?thesis unfolding 1 2 by simp
  next
    assume "1 / 2 < d"
    then show ?thesis unfolding 1 2 by simp
  next
    assume "d = 1 / 2"
    then show ?thesis unfolding 1 2 e by simp
  qed
qed


lemma rnd_zero [simp]: "rnd 0 = 0"
  by (simp add: rnd_def)

lemma rnd_minus: "rnd (- x) = - rnd x"
  by (simp add: rnd_def Let_def round_even_minus)

lemma rnd_pos_eq:
  "0 < x \<Longrightarrow> rnd x = of_int (round_even (x / 2 powi (expo x - 52))) * 2 powi (expo x - 52)"
  by (simp add: rnd_def Let_def)

lemma pow2_shift: "(2::real) powi e = 2 powi (e - k) * 2 powi k"
  using power_int_add [of "2::real" "e - k" k] by simp

lemma pow2_split: "(2::real) powi e = 2 powi (e - 52) * 2 ^ 52"
  using pow2_shift [of e 52] by simp

lemma rnd_pos_bounds:
  assumes "0 < x"
  shows "2 powi (expo x) \<le> rnd x" and "rnd x \<le> 2 powi (expo x + 1)"
proof -
  define u :: real where "u = 2 powi (expo x - 52)"
  have u: "0 < u" unfolding u_def by simp
  have lo: "2 powi (expo x) = u * 2 ^ 52" unfolding u_def by (rule pow2_split)
  have hi: "2 powi (expo x + 1) = u * 2 ^ 53"
    using pow2_shift [of "expo x + 1" 53] unfolding u_def by simp
  have r: "rnd x = of_int (round_even (x / u)) * u"
    unfolding u_def by (rule rnd_pos_eq [OF assms])
  from expo_bounds(1) [OF assms] have "u * 2 ^ 52 \<le> x" unfolding lo .
  then have "2 ^ 52 \<le> x / u" using u by (simp add: field_simps)
  then have "of_int (2 ^ 52) \<le> x / u" by simp
  then have "round_even (of_int (2 ^ 52)) \<le> round_even (x / u)" by (rule round_even_mono)
  then have "(2 ^ 52 :: int) \<le> round_even (x / u)" by (simp only: round_even_of_int)
  then have "real_of_int (2 ^ 52) \<le> of_int (round_even (x / u))" by (simp only: of_int_le_iff)
  then have "2 ^ 52 * u \<le> of_int (round_even (x / u)) * u"
    using u by (simp only: of_int_power of_int_numeral mult_le_cancel_right_pos)
  then show "2 powi (expo x) \<le> rnd x" unfolding lo r by (simp add: mult.commute)
  from expo_bounds(2) [OF assms] have "x < u * 2 ^ 53" unfolding hi .
  then have "x / u \<le> 2 ^ 53" using u by (simp add: field_simps)
  then have "x / u \<le> of_int (2 ^ 53)" by simp
  then have "round_even (x / u) \<le> round_even (of_int (2 ^ 53))" by (rule round_even_mono)
  then have "round_even (x / u) \<le> (2 ^ 53 :: int)" by (simp only: round_even_of_int)
  then have "of_int (round_even (x / u)) \<le> real_of_int (2 ^ 53)" by (simp only: of_int_le_iff)
  then have "of_int (round_even (x / u)) * u \<le> 2 ^ 53 * u"
    using u by (simp only: of_int_power of_int_numeral mult_le_cancel_right_pos)
  then show "rnd x \<le> 2 powi (expo x + 1)" unfolding hi r by (simp add: mult.commute)
qed

lemma rnd_pos:
  assumes "0 < x"
  shows "0 < rnd x"
proof -
  have "(0::real) < 2 powi (expo x)" by simp
  then show ?thesis using rnd_pos_bounds(1) [OF assms] by (rule less_le_trans)
qed

lemma rnd_mono_pos:
  assumes "0 < x" and "x \<le> y"
  shows "rnd x \<le> rnd y"
proof (cases "expo x = expo y")
  case True
  have y: "0 < y" using assms by simp
  define u :: real where "u = 2 powi (expo x - 52)"
  have u: "0 < u" unfolding u_def by simp
  have "x / u \<le> y / u" using assms(2) u by (simp add: divide_right_mono)
  then have "round_even (x / u) \<le> round_even (y / u)" by (rule round_even_mono)
  then have "real_of_int (round_even (x / u)) \<le> of_int (round_even (y / u))" by (simp only: of_int_le_iff)
  then have "of_int (round_even (x / u)) * u \<le> of_int (round_even (y / u)) * u"
    using u by (simp only: mult_le_cancel_right_pos)
  then show ?thesis
    unfolding rnd_pos_eq [OF assms(1)] rnd_pos_eq [OF y] True [symmetric] u_def .
next
  case False
  have y: "0 < y" using assms by simp
  from False expo_mono [OF assms] have "expo x + 1 \<le> expo y" by simp
  then have "(2::real) powi (expo x + 1) \<le> 2 powi (expo y)" by (rule power_int_increasing) simp
  with rnd_pos_bounds(2) [OF assms(1)] rnd_pos_bounds(1) [OF y] show ?thesis by simp
qed

lemma rnd_mono:
  assumes "x \<le> y"
  shows "rnd x \<le> rnd y"
proof -
  consider "0 < x" | "x \<le> 0" "0 \<le> y" | "y < 0" by linarith
  then show ?thesis
  proof cases
    case 1
    then show ?thesis using assms by (rule rnd_mono_pos)
  next
    case 2
    have "rnd x \<le> 0"
    proof (cases "x = 0")
      case False
      with 2 have "0 < - x" by simp
      then have "0 < rnd (- x)" by (rule rnd_pos)
      then show ?thesis by (simp add: rnd_minus)
    qed simp
    moreover have "0 \<le> rnd y"
    proof (cases "y = 0")
      case False
      with 2 have "0 < y" by simp
      then have "0 < rnd y" by (rule rnd_pos)
      then show ?thesis by simp
    qed simp
    ultimately show ?thesis by simp
  next
    case 3
    then have "0 < - y" "- y \<le> - x" using assms by simp_all
    then have "rnd (- y) \<le> rnd (- x)" by (rule rnd_mono_pos)
    then show ?thesis by (simp add: rnd_minus)
  qed
qed

lemma rnd_eq_0_iff: "rnd x = 0 \<longleftrightarrow> x = 0"
proof
  assume r: "rnd x = 0"
  show "x = 0"
  proof (rule ccontr)
    assume "x \<noteq> 0"
    then consider "0 < x" | "0 < - x" by linarith
    then show False
    proof cases
      case 1
      from rnd_pos [OF 1] r show False by simp
    next
      case 2
      from rnd_pos [OF 2] r show False by (simp add: rnd_minus)
    qed
  qed
qed simp

lemma rnd_eval:
  assumes "0 < x" and "2 powi e \<le> x" and "x < 2 powi (e + 1)"
  shows "rnd x = of_int (round_even (x / 2 powi (e - 52))) * 2 powi (e - 52)"
  unfolding rnd_pos_eq [OF assms(1)] expo_unique [OF assms] ..

lemma rnd_milli: "rnd 0.001 = 1152921504606847 / 1152921504606846976"
  by (subst rnd_eval [where e = "- 10"]) (simp_all add: round_even_def power_int_minus)

lemma rnd_centi: "rnd 0.01 = 5764607523034235 / 576460752303423488"
  by (subst rnd_eval [where e = "- 7"]) (simp_all add: round_even_def power_int_minus)


subsection \<open>Reward\<close>

lemma double_lit_pos: "0 < x \<Longrightarrow> 0 < double_lit x"
  unfolding double_lit_def by (rule rnd_pos)

lemma double_of_int_mono: "m \<le> n \<Longrightarrow> double_of_int m \<le> double_of_int n"
  unfolding double_of_int_def by (rule rnd_mono) simp

lemma double_of_int_0 [simp]: "double_of_int 0 = 0"
  by (simp add: double_of_int_def)

lemma double_of_int_eq_0_iff: "double_of_int n = 0 \<longleftrightarrow> n = 0"
  by (simp add: double_of_int_def rnd_eq_0_iff)

lemma double_of_int_nonneg: "0 \<le> n \<Longrightarrow> 0 \<le> double_of_int n"
  using double_of_int_mono [of 0 n] by simp

lemma double_mul_neg_mono:
  assumes "0 < c" and "a \<le> b"
  shows "double_mul (- c) b \<le> double_mul (- c) a"
  unfolding double_mul_def using assms by (intro rnd_mono) simp

lemma double_mul_neg_nonpos:
  assumes "0 < c" and "0 \<le> a"
  shows "double_mul (- c) a \<le> 0"
proof -
  have "rnd (- c * a) \<le> rnd 0" using assms by (intro rnd_mono) (simp add: mult_nonneg_nonneg)
  then show ?thesis by (simp add: double_mul_def)
qed

lemma double_mul_eq_0_iff: "double_mul c a = 0 \<longleftrightarrow> c = 0 \<or> a = 0"
  by (simp add: double_mul_def rnd_eq_0_iff)

lemma double_mul_minus: "double_mul (- c) a = - double_mul c a"
  by (simp add: double_mul_def rnd_minus)

lemma compute_reward_eq:
  "compute_reward obs =
     double_add (double_mul (- double_lit 0.001) (double_of_int (n_tris obs)))
       (double_mul (- double_lit 0.01) (double_of_int (max 0 (n_objs obs - 6))))"
  by (simp add: compute_reward_def Let_def)

lemma double_of_int_1000: "double_of_int 1000 = 1000"
  unfolding double_of_int_def
  by (subst rnd_eval [where e = 9]) (simp_all add: round_even_def power_int_minus)

lemma double_of_int_4: "double_of_int 4 = 4"
  unfolding double_of_int_def
  by (subst rnd_eval [where e = 2]) (simp_all add: round_even_def power_int_minus)

lemma rnd_104: "rnd 1.04 = 1170935903116329 / 1125899906842624"
  by (subst rnd_eval [where e = 0]) (simp_all add: round_even_def power_int_minus)

lemma reward_1000_10:
  "compute_reward \<lparr>n_objs = 10, n_tris = 1000, bbox0 = bb, dims = ds\<rparr>
     = - (1170935903116329 / 1125899906842624)"
proof -
  have a: "double_mul (double_lit 0.001) 1000 = 1"
    unfolding double_mul_def double_lit_def rnd_milli
    by (subst rnd_eval [where e = 0]) (simp_all add: round_even_def power_int_minus)
  have b: "double_mul (double_lit 0.01) 4 = 5764607523034235 / 144115188075855872"
    unfolding double_mul_def double_lit_def rnd_centi
    by (subst rnd_eval [where e = "- 5"]) (simp_all add: round_even_def power_int_minus)
  have c: "rnd (1 + 5764607523034235 / 144115188075855872) = 1170935903116329 / 1125899906842624"
    by (subst rnd_eval [where e = 0]) (simp_all add: round_even_def power_int_minus)
  have "compute_reward \<lparr>n_objs = 10, n_tris = 1000, bbox0 = bb, dims = ds\<rparr>
      = double_add (- double_mul (double_lit 0.001) 1000) (- double_mul (double_lit 0.01) 4)"
    by (simp add: compute_reward_eq double_mul_minus double_of_int_1000 double_of_int_4)
  also have "\<dots> = - rnd (1 + 5764607523034235 / 144115188075855872)"
    unfolding a b double_add_def by (simp add: rnd_minus [symmetric])
  finally show ?thesis unfolding c .
qed

text \<open>
  C2. The reward of an observation is \<open>-0.001 * n_tris - 0.01 * max(0, n_objs - 6)\<close> as
  Python evaluates it on floats: the product and the difference of the formula, each rounded
  to binary64, which is what the two statements of the code compute with \<^verbatim>\<open>+=\<close> and the
  negated literal. It is a function of the observation alone, and two observations that
  agree on \<open>n_tris\<close> and \<open>n_objs\<close> have the same reward. At \<open>n_tris = 0, n_objs = 0\<close> it is
  0, and at \<open>n_tris = 1000, n_objs = 10\<close> it is the float \<open>-1.04\<close>.
\<close>

theorem reward_formula:
  "compute_reward obs
     = double_sub (double_mul (- double_lit 0.001) (double_of_int (n_tris obs)))
         (double_mul (double_lit 0.01) (double_of_int (max 0 (n_objs obs - 6))))
   \<and> (n_tris obs = n_tris obs' \<and> n_objs obs = n_objs obs'
        \<longrightarrow> compute_reward obs = compute_reward obs')
   \<and> compute_reward \<lparr>n_objs = 0, n_tris = 0, bbox0 = bb, dims = ds\<rparr> = 0
   \<and> compute_reward \<lparr>n_objs = 10, n_tris = 1000, bbox0 = bb, dims = ds\<rparr> = - double_lit 1.04
   \<and> - double_lit 1.04 = - (1170935903116329 / 1125899906842624)"
proof (intro conjI impI)
  show "compute_reward obs
     = double_sub (double_mul (- double_lit 0.001) (double_of_int (n_tris obs)))
         (double_mul (double_lit 0.01) (double_of_int (max 0 (n_objs obs - 6))))"
    by (simp add: compute_reward_eq double_mul_minus double_add_def double_sub_def)
  show "compute_reward \<lparr>n_objs = 0, n_tris = 0, bbox0 = bb, dims = ds\<rparr> = 0"
    by (simp add: compute_reward_eq double_mul_def double_add_def)
  show "compute_reward \<lparr>n_objs = 10, n_tris = 1000, bbox0 = bb, dims = ds\<rparr> = - double_lit 1.04"
    by (simp only: reward_1000_10 double_lit_def rnd_104)
  show "- double_lit 1.04 = - (1170935903116329 / 1125899906842624)"
    by (simp only: double_lit_def rnd_104)
next
  assume "n_tris obs = n_tris obs' \<and> n_objs obs = n_objs obs'"
  then show "compute_reward obs = compute_reward obs'" by (simp add: compute_reward_eq)
qed

theorem reward_formula_witness:
  "compute_reward \<lparr>n_objs = 10, n_tris = 1000, bbox0 = [0, 0, 0], dims = []\<rparr>
     = compute_reward \<lparr>n_objs = 10, n_tris = 1000, bbox0 = [1, 2, 3], dims = [4]\<rparr>
   \<and> compute_reward \<lparr>n_objs = 10, n_tris = 1000, bbox0 = [0, 0, 0], dims = []\<rparr>
       = - (1170935903116329 / 1125899906842624)"
  using reward_formula
    [of "\<lparr>n_objs = 10, n_tris = 1000, bbox0 = [0, 0, 0], dims = []\<rparr>"
        "\<lparr>n_objs = 10, n_tris = 1000, bbox0 = [1, 2, 3], dims = [4]\<rparr>" "[0, 0, 0]" "[]"]
  by simp

text \<open>
  Rounding shows at \<open>n_tris = 3, n_objs = 7\<close>: the reward is the float that Python prints as
  \<^verbatim>\<open>-0.013000000000000001\<close>, not the real \<open>-13/1000\<close>.
\<close>

lemma reward_3_7:
  "compute_reward \<lparr>n_objs = 7, n_tris = 3, bbox0 = bb, dims = ds\<rparr>
     = - (3746994889972253 / 288230376151711744)"
proof -
  have t: "double_of_int 3 = 3"
    unfolding double_of_int_def
    by (subst rnd_eval [where e = 1]) (simp_all add: round_even_def power_int_minus)
  have m: "double_of_int 1 = 1"
    unfolding double_of_int_def
    by (subst rnd_eval [where e = 0]) (simp_all add: round_even_def power_int_minus)
  have a: "double_mul (double_lit 0.001) 3 = 3458764513820541 / 1152921504606846976"
    unfolding double_mul_def double_lit_def rnd_milli
    by (subst rnd_eval [where e = "- 9"]) (simp_all add: round_even_def power_int_minus)
  have b: "double_mul (double_lit 0.01) 1 = 5764607523034235 / 576460752303423488"
    unfolding double_mul_def double_lit_def rnd_centi
    by (subst rnd_eval [where e = "- 7"]) (simp_all add: round_even_def power_int_minus)
  have c: "rnd (3458764513820541 / 1152921504606846976 + 5764607523034235 / 576460752303423488)
      = 3746994889972253 / 288230376151711744"
    by (subst rnd_eval [where e = "- 7"]) (simp_all add: round_even_def power_int_minus)
  have "compute_reward \<lparr>n_objs = 7, n_tris = 3, bbox0 = bb, dims = ds\<rparr>
      = double_add (- double_mul (double_lit 0.001) 3) (- double_mul (double_lit 0.01) 1)"
    by (simp add: compute_reward_eq double_mul_minus t m)
  also have "\<dots> = - rnd (3458764513820541 / 1152921504606846976 + 5764607523034235 / 576460752303423488)"
    unfolding a b double_add_def by (simp add: rnd_minus [symmetric])
  finally show ?thesis unfolding c .
qed


text \<open>
  C10. For an observation with \<open>n_tris \<ge> 0\<close> and \<open>n_objs \<ge> 0\<close> the reward, computed on
  floats, is at most 0, it is 0 exactly when \<open>n_tris = 0\<close> and \<open>n_objs \<le> 6\<close>, and it does
  not increase when \<open>n_tris\<close> and \<open>n_objs\<close> grow.
\<close>

theorem reward_nonpositive_monotone:
  "0 \<le> n_tris obs \<and> 0 \<le> n_objs obs \<longrightarrow>
     compute_reward obs \<le> 0
     \<and> (compute_reward obs = 0 \<longleftrightarrow> n_tris obs = 0 \<and> n_objs obs \<le> 6)
     \<and> (n_tris obs \<le> n_tris obs' \<and> n_objs obs \<le> n_objs obs'
          \<longrightarrow> compute_reward obs' \<le> compute_reward obs)"
proof (intro impI conjI)
  assume h: "0 \<le> n_tris obs \<and> 0 \<le> n_objs obs"
  define c1 where "c1 = double_lit 0.001"
  define c2 where "c2 = double_lit 0.01"
  define a where "a = double_mul (- c1) (double_of_int (n_tris obs))"
  define b where "b = double_mul (- c2) (double_of_int (max 0 (n_objs obs - 6)))"
  have c1: "0 < c1" unfolding c1_def by (rule double_lit_pos) simp
  have c2: "0 < c2" unfolding c2_def by (rule double_lit_pos) simp
  have r: "compute_reward obs = rnd (a + b)"
    by (simp add: compute_reward_eq a_def b_def c1_def c2_def double_add_def)
  have a: "a \<le> 0" unfolding a_def using c1 h by (intro double_mul_neg_nonpos double_of_int_nonneg) simp_all
  have b: "b \<le> 0" unfolding b_def using c2 by (intro double_mul_neg_nonpos double_of_int_nonneg) simp_all
  have "rnd (a + b) \<le> rnd 0" using a b by (intro rnd_mono) simp
  then show "compute_reward obs \<le> 0" unfolding r by simp
  have "compute_reward obs = 0 \<longleftrightarrow> a + b = 0" unfolding r by (rule rnd_eq_0_iff)
  also have "\<dots> \<longleftrightarrow> a = 0 \<and> b = 0" using a b by linarith
  also have "a = 0 \<longleftrightarrow> n_tris obs = 0"
    unfolding a_def using c1 by (simp add: double_mul_eq_0_iff double_of_int_eq_0_iff)
  also have "b = 0 \<longleftrightarrow> n_objs obs \<le> 6"
    unfolding b_def using c2 by (simp add: double_mul_eq_0_iff double_of_int_eq_0_iff max_def)
  finally show "compute_reward obs = 0 \<longleftrightarrow> n_tris obs = 0 \<and> n_objs obs \<le> 6" .
  assume m: "n_tris obs \<le> n_tris obs' \<and> n_objs obs \<le> n_objs obs'"
  define a' where "a' = double_mul (- c1) (double_of_int (n_tris obs'))"
  define b' where "b' = double_mul (- c2) (double_of_int (max 0 (n_objs obs' - 6)))"
  have r': "compute_reward obs' = rnd (a' + b')"
    by (simp add: compute_reward_eq a'_def b'_def c1_def c2_def double_add_def)
  have "a' \<le> a" unfolding a_def a'_def using c1 m
    by (intro double_mul_neg_mono double_of_int_mono) simp_all
  moreover have "max 0 (n_objs obs - 6) \<le> max 0 (n_objs obs' - 6)" using m by (simp add: max_def)
  then have "b' \<le> b" unfolding b_def b'_def using c2
    by (intro double_mul_neg_mono double_of_int_mono)
  ultimately have "a' + b' \<le> a + b" by simp
  then show "compute_reward obs' \<le> compute_reward obs" unfolding r r' by (rule rnd_mono)
qed

theorem reward_nonpositive_monotone_witness:
  "compute_reward \<lparr>n_objs = 7, n_tris = 3, bbox0 = [], dims = []\<rparr> \<le> 0
   \<and> compute_reward \<lparr>n_objs = 7, n_tris = 3, bbox0 = [], dims = []\<rparr> \<noteq> 0
   \<and> compute_reward \<lparr>n_objs = 9, n_tris = 4, bbox0 = [], dims = []\<rparr>
        \<le> compute_reward \<lparr>n_objs = 7, n_tris = 3, bbox0 = [], dims = []\<rparr>
   \<and> compute_reward \<lparr>n_objs = 7, n_tris = 3, bbox0 = [], dims = []\<rparr>
        = - (3746994889972253 / 288230376151711744)"
  using reward_nonpositive_monotone
    [of "\<lparr>n_objs = 7, n_tris = 3, bbox0 = [], dims = []\<rparr>"
        "\<lparr>n_objs = 9, n_tris = 4, bbox0 = [], dims = []\<rparr>"]
    reward_3_7 [of "[]" "[]"]
  by simp

subsection \<open>The exponent range\<close>

text \<open>
  For counts up to \<open>2^1000\<close>, every float the reward computes (the two converted counts, the
  two products and the sum) is zero or in binary64's normal range, so in that range the
  rounding above is binary64's.
\<close>

lemma rnd_pow2: "rnd (2 powi k) = 2 powi k"
proof -
  have "rnd (2 powi k) = of_int (round_even (2 powi k / 2 powi (k - 52))) * 2 powi (k - 52)"
    by (rule rnd_eval) (simp_all add: power_int_add)
  also have "(2::real) powi k / 2 powi (k - 52) = of_int (2 ^ 52)"
    using pow2_split [of k] by simp
  also have "of_int (round_even (of_int (2 ^ 52))) * 2 powi (k - 52) = (2::real) powi k"
    using pow2_split [of k] by (simp only: round_even_of_int) simp
  finally show ?thesis .
qed

lemma in_range_rnd: "in_range lo hi x \<Longrightarrow> in_range lo hi (rnd x)"
  unfolding in_range_def
  using rnd_mono [of "2 powi lo" x] rnd_mono [of x "2 powi hi"] by (auto simp add: rnd_pow2)

lemma in_range_mult:
  assumes "in_range l1 h1 x" and "in_range l2 h2 y"
  shows "in_range (l1 + l2) (h1 + h2) (x * y)"
proof (cases "x = 0 \<or> y = 0")
  case True
  then show ?thesis by (auto simp add: in_range_def)
next
  case False
  with assms have x: "2 powi l1 \<le> x" "x \<le> 2 powi h1" and y: "2 powi l2 \<le> y" "y \<le> 2 powi h2"
    by (simp_all add: in_range_def)
  have p1: "(0::real) \<le> 2 powi l1" and p2: "(0::real) \<le> 2 powi l2" by simp_all
  have x0: "0 \<le> x" using p1 x(1) by (rule order_trans)
  have y0: "0 \<le> y" using p2 y(1) by (rule order_trans)
  have "(2::real) powi l1 * 2 powi l2 \<le> x * y"
    using x(1) y(1) x0 p2 by (rule mult_mono)
  then have 1: "2 powi (l1 + l2) \<le> x * y" by (simp only: power_int_add [of "2::real", simplified])
  have "x * y \<le> 2 powi h1 * 2 powi h2"
    using x(2) y(2) by (rule mult_mono) (simp_all add: y0)
  then have 2: "x * y \<le> 2 powi (h1 + h2)" by (simp only: power_int_add [of "2::real", simplified])
  from 1 2 show ?thesis unfolding in_range_def by blast
qed

lemma in_range_add:
  assumes "in_range l1 h1 x" and "in_range l2 h2 y" and "lo \<le> l1" and "lo \<le> l2"
    and "h1 < hi" and "h2 < hi"
  shows "in_range lo hi (x + y)"
proof -
  define L :: real where "L = 2 powi lo"
  define H :: real where "H = 2 powi (hi - 1)"
  have H: "0 < H" unfolding H_def by simp
  have lo: "L \<le> 2 powi l1" "L \<le> 2 powi l2"
    unfolding L_def using assms(3,4) by (simp_all add: power_int_increasing)
  have "h1 \<le> hi - 1" "h2 \<le> hi - 1" using assms(5,6) by simp_all
  then have hi: "2 powi h1 \<le> H" "2 powi h2 \<le> H"
    unfolding H_def by (simp_all add: power_int_increasing)
  have d: "2 powi hi = H + H"
    unfolding H_def using pow2_shift [of hi 1] by simp
  have p: "(0::real) < 2 powi k" for k by simp
  from assms(1,2) consider "x = 0" "y = 0"
    | "x = 0" "2 powi l2 \<le> y" "y \<le> 2 powi h2"
    | "2 powi l1 \<le> x" "x \<le> 2 powi h1" "y = 0"
    | "2 powi l1 \<le> x" "x \<le> 2 powi h1" "2 powi l2 \<le> y" "y \<le> 2 powi h2"
    unfolding in_range_def by blast
  then have "x + y = 0 \<or> (L \<le> x + y \<and> x + y \<le> H + H)"
  proof cases
    case 1
    then show ?thesis by simp
  next
    case 2
    have "L \<le> x + y" using 2 lo(2) by linarith
    moreover have "x + y \<le> H + H" using 2 hi(2) H by linarith
    ultimately show ?thesis by blast
  next
    case 3
    have "L \<le> x + y" using 3 lo(1) by linarith
    moreover have "x + y \<le> H + H" using 3 hi(1) H by linarith
    ultimately show ?thesis by blast
  next
    case 4
    have "L \<le> x + y" using 4 lo(1) p [of l2] by linarith
    moreover have "x + y \<le> H + H" using 4 hi by linarith
    ultimately show ?thesis by blast
  qed
  then show ?thesis unfolding in_range_def d L_def .
qed

lemma in_range_normal64:
  assumes "in_range lo hi x" and "- 1022 \<le> lo" and "hi < 1024"
  shows "normal64 x" and "normal64 (- x)"
proof -
  define L :: real where "L = 2 powi (- 1022)"
  define H :: real where "H = 2 powi 1024"
  have "x = 0 \<or> (L \<le> \<bar>x\<bar> \<and> \<bar>x\<bar> < H)"
  proof (cases "x = 0")
    case False
    with assms(1) have x: "2 powi lo \<le> x" "x \<le> 2 powi hi" by (simp_all add: in_range_def)
    have l: "L \<le> 2 powi lo" unfolding L_def using assms(2) by (intro power_int_increasing) simp_all
    have h: "2 powi hi < H" unfolding H_def using assms(3) by (intro power_int_strict_increasing) simp_all
    have "(0::real) < 2 powi lo" by simp
    with x(1) have "0 < x" by linarith
    then have "\<bar>x\<bar> = x" by simp
    moreover have "L \<le> x" using l x(1) by linarith
    moreover have "x < H" using h x(2) by linarith
    ultimately show ?thesis by simp
  qed simp
  then show "normal64 x" and "normal64 (- x)" unfolding normal64_def L_def H_def by simp_all
qed

lemma in_range_of_int:
  assumes "0 \<le> n" and "n \<le> 2 ^ 1000"
  shows "in_range 0 1000 (of_int n)"
proof (cases "n = 0")
  case False
  with assms(1) have "1 \<le> n" by simp
  then have "(1::real) \<le> of_int n" by simp
  moreover have "real_of_int n \<le> real_of_int (2 ^ 1000)" using assms(2) by (simp only: of_int_le_iff)
  ultimately show ?thesis by (simp add: in_range_def)
qed (simp add: in_range_def)

lemma in_range_lit:
  "in_range (- 10) (- 9) (double_lit 0.001)" "in_range (- 7) (- 6) (double_lit 0.01)"
  unfolding double_lit_def by (rule in_range_rnd, simp add: in_range_def power_int_minus)+

lemma reward_in_range:
  assumes "0 \<le> n_tris obs" and "n_tris obs \<le> 2 ^ 1000"
    and "0 \<le> n_objs obs" and "n_objs obs \<le> 2 ^ 1000"
  shows "normal64 (double_of_int (n_tris obs))"
    and "normal64 (double_of_int (max 0 (n_objs obs - 6)))"
    and "normal64 (double_mul (- double_lit 0.001) (double_of_int (n_tris obs)))"
    and "normal64 (double_mul (- double_lit 0.01) (double_of_int (max 0 (n_objs obs - 6))))"
    and "normal64 (compute_reward obs)"
proof -
  define t where "t = double_of_int (n_tris obs)"
  define m where "m = double_of_int (max 0 (n_objs obs - 6))"
  define A where "A = rnd (double_lit 0.001 * t)"
  define B where "B = rnd (double_lit 0.01 * m)"
  have t: "in_range 0 1000 t"
    unfolding t_def double_of_int_def using assms(1,2) by (intro in_range_rnd in_range_of_int)
  have m: "in_range 0 1000 m"
    unfolding m_def double_of_int_def using assms(3,4) by (intro in_range_rnd in_range_of_int) simp_all
  have A: "in_range (- 10) 991 A"
    unfolding A_def using in_range_mult [OF in_range_lit(1) t] by (intro in_range_rnd) simp
  have B: "in_range (- 7) 994 B"
    unfolding B_def using in_range_mult [OF in_range_lit(2) m] by (intro in_range_rnd) simp
  have S: "in_range (- 10) 995 (rnd (A + B))"
    by (intro in_range_rnd in_range_add [OF A B]) simp_all
  have a: "double_mul (- double_lit 0.001) t = - A"
    by (simp add: double_mul_def A_def rnd_minus)
  have b: "double_mul (- double_lit 0.01) m = - B"
    by (simp add: double_mul_def B_def rnd_minus)
  have r: "compute_reward obs = - rnd (A + B)"
    unfolding compute_reward_eq t_def [symmetric] m_def [symmetric] a b double_add_def
    using rnd_minus [of "A + B"] by simp
  show "normal64 (double_of_int (n_tris obs))"
    using in_range_normal64(1) [OF t] by (simp add: t_def)
  show "normal64 (double_of_int (max 0 (n_objs obs - 6)))"
    using in_range_normal64(1) [OF m] by (simp add: m_def)
  show "normal64 (double_mul (- double_lit 0.001) (double_of_int (n_tris obs)))"
    using in_range_normal64(2) [OF A] a by (simp add: t_def)
  show "normal64 (double_mul (- double_lit 0.01) (double_of_int (max 0 (n_objs obs - 6))))"
    using in_range_normal64(2) [OF B] b by (simp add: m_def)
  show "normal64 (compute_reward obs)"
    using in_range_normal64(2) [OF S] r by simp
qed



subsection \<open>The episode\<close>

lemma step_env:
  "env (snd (step E a w)) = (env w)\<lparr>step_count := step_count (env w) + 1\<rparr>"
  by (simp add: step_def Let_def)

lemma step_frame: "disk (snd (step E a w)) = disk w \<and> stdout (snd (step E a w)) = stdout w"
  by (simp add: step_def Let_def)

lemma step_done:
  "done_flag (step E a w) = (max_steps (env w) \<le> step_count (env w) + 1)"
  by (simp add: step_def Let_def done_flag_def)

lemma reset_env: "env (snd (reset E w)) = (env w)\<lparr>step_count := 0\<rparr>"
  by (simp add: reset_def Let_def split: option.splits prod.splits)

lemma steps_env:
  "env (steps E acts w) = (env w)\<lparr>step_count := step_count (env w) + int (length acts)\<rparr>"
  by (induction acts arbitrary: w) (simp_all add: step_env)

lemma steps_disk: "disk (steps E acts w) = disk w"
  by (induction acts arbitrary: w) (simp_all add: step_frame)

text \<open>
  C4. From a freshly reset environment (of an environment object as \<^verbatim>\<open>__init__\<close> makes it,
  \<open>max_steps = 50\<close>), after the steps \<open>acts\<close> and no reset, \<open>step_count\<close> is the number of
  steps taken; the \<open>done\<close> a step returns is true exactly when the \<open>step_count\<close> it leaves
  is at least 50; and once a step has returned \<open>done\<close>, every later step returns it too.
\<close>

theorem step_count_and_done:
  "max_steps (env w) = 50 \<longrightarrow>
     step_count (env (steps E acts (snd (reset E w)))) = int (length acts)
     \<and> step_count (env (snd (step E a (steps E acts (snd (reset E w))))))
         = int (length acts) + 1
     \<and> done_flag (step E a (steps E acts (snd (reset E w))))
         = (50 \<le> step_count (env (snd (step E a (steps E acts (snd (reset E w)))))))
     \<and> (done_flag (step E a (steps E acts (snd (reset E w))))
          \<longrightarrow> done_flag (step E a' (steps E (acts @ a # later) (snd (reset E w)))))"
  by (simp add: steps_env step_env step_done reset_env)

theorem step_count_and_done_witness:
  "step_count (env (steps demo_engine (replicate 49 99) (snd (reset demo_engine demo_worker)))) = 49
   \<and> done_flag (step demo_engine 99 (steps demo_engine (replicate 49 99) (snd (reset demo_engine demo_worker))))
   \<and> done_flag (step demo_engine 0
        (steps demo_engine (replicate 49 99 @ 99 # [1, 2]) (snd (reset demo_engine demo_worker))))"
proof -
  have h: "max_steps (env demo_worker) = 50"
    by (simp add: demo_worker_def main_worker_def init_env_def)
  show ?thesis
    using h step_count_and_done [of demo_worker demo_engine "replicate 49 99" 99 0 "[1, 2]"]
    by simp
qed

lemma valid_obs_get_obs: "valid_obs (get_obs sc)"
proof -
  have "0 \<le> sum_list (map (\<lambda>ob. int (polygons ob)) (mesh_objects sc))"
    by (rule sum_list_nonneg) auto
  moreover have "length (bbox0 (get_obs sc)) = 3"
    by (simp add: get_obs_def Let_def split: list.splits)
  moreover have "length (dims (get_obs sc)) = 15"
    by (simp add: get_obs_def Let_def pad_dims_eq)
  ultimately show ?thesis
    by (simp add: valid_obs_def get_obs_def Let_def)
qed

text \<open>
  C5. For an action outside \<open>{0, 1, 2, 3}\<close>, \<open>step\<close> leaves the scene (and the file system
  and the output) as they were, adds one to \<open>step_count\<close> and changes nothing else of the
  environment, and returns the observation of the unchanged scene, its reward, the
  \<open>done\<close> flag and an empty \<open>info\<close>; the observation is well formed.
\<close>

theorem step_noop:
  "a \<notin> {0, 1, 2, 3} \<longrightarrow>
     bpy (snd (step E a w)) = bpy w
     \<and> disk (snd (step E a w)) = disk w
     \<and> stdout (snd (step E a w)) = stdout w
     \<and> env (snd (step E a w)) = (env w)\<lparr>step_count := step_count (env w) + 1\<rparr>
     \<and> fst (step E a w)
         = (get_obs (bpy w), compute_reward (get_obs (bpy w)),
            max_steps (env w) \<le> step_count (env w) + 1, [])
     \<and> valid_obs (fst (fst (step E a w)))"
  by (simp add: step_def Let_def valid_obs_get_obs)

theorem step_noop_witness:
  "bpy (snd (step demo_engine 99 demo_worker)) = bpy demo_worker
   \<and> step_count (env (snd (step demo_engine 99 demo_worker))) = 1
   \<and> snd (snd (snd (fst (step demo_engine 99 demo_worker)))) = []
   \<and> valid_obs (fst (fst (step demo_engine 99 demo_worker)))"
proof -
  have a: "(99 :: int) \<notin> {0, 1, 2, 3}" by simp
  have c: "step_count (env demo_worker) = 0"
    by (simp add: demo_worker_def main_worker_def init_env_def)
  note s = step_noop [of 99 demo_engine demo_worker, rule_format, OF a]
  from s have 1: "bpy (snd (step demo_engine 99 demo_worker)) = bpy demo_worker" by blast
  from s have "env (snd (step demo_engine 99 demo_worker))
      = (env demo_worker)\<lparr>step_count := step_count (env demo_worker) + 1\<rparr>" by blast
  then have 2: "step_count (env (snd (step demo_engine 99 demo_worker))) = 1"
    by (simp add: c)
  from s have "fst (step demo_engine 99 demo_worker)
         = (get_obs (bpy demo_worker), compute_reward (get_obs (bpy demo_worker)),
            max_steps (env demo_worker) \<le> step_count (env demo_worker) + 1, [])" by blast
  then have 3: "snd (snd (snd (fst (step demo_engine 99 demo_worker)))) = []" by simp
  from s have 4: "valid_obs (fst (fst (step demo_engine 99 demo_worker)))" by blast
  from 1 2 3 4 show ?thesis by blast
qed

lemma reset_frame:
  "disk (snd (reset E w)) = disk w \<and> usd_path (env (snd (reset E w))) = usd_path (env w)"
  by (simp add: reset_def Let_def split: option.splits prod.splits)

lemma reset_scene_determined:
  assumes "deterministic_baseline E"
    and "usd_path (env w) = usd_path (env w')" and "disk w = disk w'"
  shows "bpy (snd (reset E w)) = bpy (snd (reset E w'))"
proof -
  have "read_factory_settings E True (bpy w) = read_factory_settings E True (bpy w')"
    using assms(1) by (simp add: deterministic_baseline_def)
  then show ?thesis
    using assms(2,3) by (simp add: reset_def Let_def split: option.splits prod.splits)
qed

text \<open>
  C8. Given that the engine's factory reset does not depend on the scene it finds, a reset
  made after any steps that followed an earlier reset returns the observation the earlier
  reset returned and leaves the same scene, and both leave \<open>step_count\<close> at 0. With
  \<open>acts = []\<close> these are two resets in a row. The asset path is that of the environment,
  which neither \<open>reset\<close> nor \<open>step\<close> changes, and no step writes the file system.
\<close>

theorem reset_idempotent:
  "deterministic_baseline E \<longrightarrow>
     fst (reset E (steps E acts (snd (reset E w)))) = fst (reset E w)
     \<and> bpy (snd (reset E (steps E acts (snd (reset E w))))) = bpy (snd (reset E w))
     \<and> step_count (env (snd (reset E w))) = 0
     \<and> step_count (env (snd (reset E (steps E acts (snd (reset E w)))))) = 0"
proof
  assume d: "deterministic_baseline E"
  let ?w1 = "snd (reset E w)"
  let ?w2 = "steps E acts ?w1"
  have "usd_path (env ?w2) = usd_path (env w)" by (simp add: steps_env reset_env)
  moreover have "disk ?w2 = disk w" by (simp add: steps_disk reset_frame)
  ultimately have sc: "bpy (snd (reset E ?w2)) = bpy (snd (reset E w))"
    by (rule reset_scene_determined [OF d])
  then have "fst (reset E ?w2) = fst (reset E w)" by (simp add: reset_obs)
  with sc show "fst (reset E ?w2) = fst (reset E w)
     \<and> bpy (snd (reset E ?w2)) = bpy (snd (reset E w))
     \<and> step_count (env (snd (reset E w))) = 0
     \<and> step_count (env (snd (reset E ?w2))) = 0"
    by (simp add: reset_env)
qed

lemma reset_asset:
  "bpy (snd (reset demo_engine asset_worker)) = \<lparr>objects = [demo_cube], active = None\<rparr>"
  by (simp add: reset_def asset_worker_def main_worker_def init_env_def demo_engine_def
      path_exists_def Let_def)

lemma demo_decimate:
  "decimate_all demo_engine [0] \<lparr>objects = [demo_cube], active = None\<rparr>
     = \<lparr>objects = [demo_cube\<lparr>polygons := 5\<rparr>], active = Some 0\<rparr>"
proof -
  have 1: "modifiers_new demo_engine i n k sc = (Inr n, sc)" for i n k sc
    by (simp add: demo_engine_def)
  have 2: "set_ratio demo_engine i m r sc = (None, sc)" for i m r sc
    by (simp add: demo_engine_def)
  have 3: "modifier_apply demo_engine m \<lparr>objects = [demo_cube], active = Some 0\<rparr>
      = (None, \<lparr>objects = [demo_cube\<lparr>polygons := 5\<rparr>], active = Some 0\<rparr>)" for m
    by (simp add: demo_engine_def demo_cube_def)
  show ?thesis
    by (simp add: try_pass_def then_op_def set_active_def 1 2 3)
qed

lemma step_asset:
  "n_tris (fst (fst (step demo_engine 0 (snd (reset demo_engine asset_worker))))) = 5"
proof -
  have m: "mesh_refs \<lparr>objects = [demo_cube], active = None\<rparr> = [0]"
    by (simp add: mesh_refs_def demo_cube_def)
  have "bpy (snd (step demo_engine 0 w)) = decimate_all demo_engine (mesh_refs (bpy w)) (bpy w)"
    for w by (simp add: step_def Let_def)
  then have "bpy (snd (step demo_engine 0 (snd (reset demo_engine asset_worker))))
      = \<lparr>objects = [demo_cube\<lparr>polygons := 5\<rparr>], active = Some 0\<rparr>"
    by (simp only: reset_asset m demo_decimate)
  then show ?thesis
    by (simp add: step_obs get_obs_def mesh_objects_def demo_cube_def Let_def)
qed

theorem reset_idempotent_witness:
  "fst (reset demo_engine (steps demo_engine [0, 3, 99] (snd (reset demo_engine asset_worker))))
     = fst (reset demo_engine asset_worker)
   \<and> n_tris (fst (reset demo_engine asset_worker)) = 6
   \<and> n_tris (fst (fst (step demo_engine 0 (snd (reset demo_engine asset_worker))))) = 5
   \<and> step_count (env (snd (reset demo_engine
        (steps demo_engine [0, 3, 99] (snd (reset demo_engine asset_worker)))))) = 0"
proof -
  have "deterministic_baseline demo_engine"
    by (simp add: deterministic_baseline_def demo_engine_def)
  moreover have "n_tris (fst (reset demo_engine asset_worker)) = 6"
    by (simp add: reset_obs reset_asset get_obs_def mesh_objects_def demo_cube_def Let_def)
  ultimately show ?thesis
    using reset_idempotent [of demo_engine "[0, 3, 99]" asset_worker] step_asset by simp
qed

subsection \<open>The handler, branch by branch\<close>

lemma dispatch_ping:
  "map_of kv ''cmd'' = Some (JString ''ping'') \<Longrightarrow>
     dispatch E (JObject kv) w out = (Inr Continue, w, out @ [JObject [(''pong'', JBool True)]])"
  by (simp add: dispatch_def)










lemma demo_loads_ping:
  \<open>json_loads demo_engine (strip ''{"cmd": "ping"}\<newline>'') = Inr (JObject [(''cmd'', JString ''ping'')])\<close>
  by (simp add: demo_engine_def demo_loads_def strip_def is_space_def)

text \<open>
  C7. Whatever the worker and whatever has been written so far, a \<^verbatim>\<open>ping\<close> appends the reply
  \<open>{"pong": true}\<close> and returns the worker as it was: the environment with its \<open>step_count\<close>
  and \<open>max_steps\<close>, the scene and the file system are those before the ping, and the handler
  goes on to the next line.
\<close>

theorem ping_leaves_worker:
  "map_of kv ''cmd'' = Some (JString ''ping'') \<longrightarrow>
     dispatch E (JObject kv) w out = (Inr Continue, w, out @ [JObject [(''pong'', JBool True)]])
     \<and> (line \<noteq> [] \<and> json_loads E (strip line) = Inr (JObject kv) \<longrightarrow>
          handle_client E (line # rest) w out
            = handle_client E rest w (out @ [JObject [(''pong'', JBool True)]]))"
  by (simp add: dispatch_ping)

theorem ping_leaves_worker_witness:
  \<open>handle_client demo_engine [''{"cmd": "ping"}\<newline>''] demo_worker []
     = (None, log_line ClientDisconnected demo_worker, [JObject [(''pong'', JBool True)]])\<close>
  using ping_leaves_worker [of "[(''cmd'', JString ''ping'')]" demo_engine demo_worker "[]"
      \<open>''{"cmd": "ping"}\<newline>''\<close> "[]"] demo_loads_ping
  by simp

subsection \<open>The listener survives a session\<close>
















subsection \<open>The conversion of the action\<close>






subsection \<open>Replies\<close>















end
